theory Spec2Isabelle
  imports Complex_Main "HOL-Library.Multiset"
begin

section \<open>Riftory: gesture handling, looped feed and favourites\<close>

text \<open>
  A shallow embedding of the stateful parts of the Riftory client (React Native,
  TypeScript): the triple-overscroll detector of the home screen, the looped feed of the
  For You screen with the identifier stripping of its reel items, the single/double tap
  handler of a reel item, the favourite toggles and the session favourites list.

  Conventions. A \<^verbatim>\<open>useRef\<close> cell or a \<^verbatim>\<open>useState\<close> value is a field of a state record
  that the handler takes and returns. What a handler does to the outside (haptics,
  navigation, network calls, console output, callbacks) is returned as a list of effects
  in the order the source performs them. \<^verbatim>\<open>Date.now()\<close> is a parameter \<open>now\<close> of type
  \<open>int\<close> (milliseconds). Scroll measurements are JavaScript numbers; they are only added,
  subtracted and compared here, and are taken as real numbers.
\<close>

subsection \<open>Effects\<close>

text \<open>Everything a handler of this development does to the outside, as one type: haptic
  feedback, \<^verbatim>\<open>navigation.navigate\<close>, the calls of the favourites API, \<^verbatim>\<open>console.error\<close>,
  the state setters of the reel item and of the home screen, the two animations, the
  \<^verbatim>\<open>toggleFavorite\<close> of the favourites context and the \<^verbatim>\<open>onSingleTap\<close> callback.\<close>

datatype effect =
    HapticImpact
  | HapticWarning
  | Navigate string
  | AddFavoriteCall string
  | RemoveFavoriteCall string
  | ConsoleError string
  | SetFavorited bool
  | SetIsTogglingFavorite bool
  | SetFavoriteIds "string set"
  | TriggerHeartAnimation
  | TriggerFavoritePulse
  | ToggleFavoriteCall string
  | OnSingleTap string

subsection \<open>HomeScreen: the triple-overscroll detector\<close>

record velocity_t =
  velocity_x :: real
  velocity_y :: real

text \<open>The fields of \<^verbatim>\<open>event.nativeEvent\<close> that the handler reads; \<^verbatim>\<open>velocity\<close> is optional.\<close>

record nativeEvent =
  layoutMeasurement_height :: real
  contentOffset_y :: real
  contentSize_height :: real
  velocity :: "velocity_t option"

record overscroll_state =
  overscrollCountRef :: int
  lastOverscrollRef :: int

definition OVERSCROLL_WINDOW :: int where
  "OVERSCROLL_WINDOW = 3000"

definition paddingToBottom :: real where
  "paddingToBottom = 50"

definition atBottom :: "nativeEvent \<Rightarrow> bool" where
  "atBottom ev \<longleftrightarrow>
     layoutMeasurement_height ev + contentOffset_y ev \<ge> contentSize_height ev - paddingToBottom"

text \<open>The guard \<^verbatim>\<open>atBottom && velocity && velocity.y < -0.5\<close>.\<close>

definition overscrollAttempt :: "nativeEvent \<Rightarrow> bool" where
  "overscrollAttempt ev \<longleftrightarrow>
     atBottom ev \<and> (case velocity ev of None \<Rightarrow> False | Some v \<Rightarrow> velocity_y v < - 0.5)"

definition handleScrollEndDrag ::
  "nativeEvent \<Rightarrow> int \<Rightarrow> overscroll_state \<Rightarrow> overscroll_state \<times> effect list" where
  "handleScrollEndDrag ev now st =
     (if overscrollAttempt ev then
        let c0 = (if now - lastOverscrollRef st > OVERSCROLL_WINDOW then 0
                  else overscrollCountRef st);
            c1 = c0 + 1
        in if c1 \<ge> 3
           then (\<lparr>overscrollCountRef = 0, lastOverscrollRef = now\<rparr>,
                 [HapticImpact, HapticWarning, Navigate ''UpsideDown''])
           else (\<lparr>overscrollCountRef = c1, lastOverscrollRef = now\<rparr>, [HapticImpact])
      else (st, []))"

text \<open>A sequence of scroll-end events, each with the clock reading of its handler; the
  result keeps the effects of every event apart.\<close>

fun scrollEvents ::
  "(nativeEvent \<times> int) list \<Rightarrow> overscroll_state \<Rightarrow> overscroll_state \<times> effect list list" where
  "scrollEvents [] st = (st, [])"
| "scrollEvents ((ev, now) # rest) st =
     (let (st1, out) = handleScrollEndDrag ev now st;
          (st2, outs) = scrollEvents rest st1
      in (st2, out # outs))"

text \<open>Both refs start at 0 when the screen mounts.\<close>

definition mountState :: overscroll_state where
  "mountState = \<lparr>overscrollCountRef = 0, lastOverscrollRef = 0\<rparr>"

definition unlockCount :: "effect list list \<Rightarrow> nat" where
  "unlockCount outs = length (filter (\<lambda>e. e = Navigate ''UpsideDown'') (concat outs))"

text \<open>A sample event: an 800 high viewport scrolled to within 30 of the end of a 2000
  high list, released with velocity.y = -1.2.\<close>

definition bottomFling :: nativeEvent where
  "bottomFling = \<lparr>layoutMeasurement_height = 800, contentOffset_y = 1170,
     contentSize_height = 2000, velocity = Some \<lparr>velocity_x = 0, velocity_y = - 1.2\<rparr>\<rparr>"

subsection \<open>Products\<close>

text \<open>The \<^verbatim>\<open>Product\<close> interface. The handlers modelled here read and write the \<^verbatim>\<open>id\<close> only
  (field \<open>product_id\<close>, since \<open>id\<close> is the identity function of HOL); the other fields
  are copied along.\<close>

record product =
  product_id :: string
  title :: string
  price :: real
  imageUrl :: string




subsection \<open>ForYouScreen: the looped feed\<close>


text \<open>A loop counter or an array index inside a template literal: its decimal digits.\<close>

definition digitChar :: "nat \<Rightarrow> char" where
  "digitChar d = ''0123456789'' ! d"

fun numberToString :: "nat \<Rightarrow> string" where
  "numberToString n =
     (if n < 10 then [digitChar n]
      else numberToString (n div 10) @ [digitChar (n mod 10)])"

declare numberToString.simps [simp del]

text \<open>The template literal \<^verbatim>\<open>`${product.id}_loop${i}_${idx}`\<close>.\<close>

definition loopId :: "string \<Rightarrow> nat \<Rightarrow> nat \<Rightarrow> string" where
  "loopId originalId i idx =
     originalId @ ''_loop'' @ numberToString i @ ''_'' @ numberToString idx"

text \<open>\<^verbatim>\<open>shuffled.forEach((product, idx) => looped.push({...product, id: ...}))\<close>, from index
  \<open>idx\<close> on, and the \<^verbatim>\<open>for\<close> loop around it, from \<open>i\<close> up to the multiplier \<open>m\<close>.\<close>

fun forEachPush :: "nat \<Rightarrow> nat \<Rightarrow> product list \<Rightarrow> product list \<Rightarrow> product list" where
  "forEachPush i idx [] looped = looped"
| "forEachPush i idx (product # rest) looped =
     forEachPush i (Suc idx) rest
       (looped @ [product\<lparr>product_id := loopId (product_id product) i idx\<rparr>])"

function loopFrom :: "nat \<Rightarrow> nat \<Rightarrow> product list \<Rightarrow> product list \<Rightarrow> product list" where
  "loopFrom i m shuffled looped =
     (if i < m then loopFrom (Suc i) m shuffled (forEachPush i 0 shuffled looped)
      else looped)"
  by pat_completeness auto
termination
  by (relation "measure (\<lambda>(i, m, shuffled, looped). m - i)") auto

declare loopFrom.simps [simp del]

definition buildLooped :: "nat \<Rightarrow> product list \<Rightarrow> product list" where
  "buildLooped m shuffled = loopFrom 0 m shuffled []"




subsection \<open>EnhancedReelItem: stripping the loop suffix\<close>

text \<open>
  \<^verbatim>\<open>id.match(/^(.+)_loop\d+_\d+$/)\<close>. Strings are lists of 8-bit characters here, so the
  line terminators that \<^verbatim>\<open>.\<close> does not match are line feed and carriage return; \<^verbatim>\<open>\d\<close> is
  an ASCII digit. \<open>matchesTail r\<close> matches \<^verbatim>\<open>_loop\d+_\d+$\<close> against the rest \<open>r\<close> of the
  string: a greedy \<^verbatim>\<open>\d+\<close> takes every digit there is, and giving one back cannot help,
  as a digit would then stand where \<^verbatim>\<open>_\<close> or the end is expected. \<open>loopMatch\<close> tries the
  lengths of the group \<^verbatim>\<open>(.+)\<close> from the longest run without a line terminator down to
  1, as the backtracking matcher does, and returns the group of the first match.
\<close>

definition isDigit :: "char \<Rightarrow> bool" where
  "isDigit c \<longleftrightarrow> c \<in> set ''0123456789''"

definition isLineTerminator :: "char \<Rightarrow> bool" where
  "isLineTerminator c \<longleftrightarrow> c = CHR 0x0A \<or> c = CHR 0x0D"

definition matchesTail :: "string \<Rightarrow> bool" where
  "matchesTail r \<longleftrightarrow>
     take 5 r = ''_loop'' \<and>
     (let r1 = drop 5 r;
          d1 = takeWhile isDigit r1;
          r2 = dropWhile isDigit r1
      in d1 \<noteq> [] \<and>
         (case r2 of [] \<Rightarrow> False
          | c # r3 \<Rightarrow> c = CHR ''_'' \<and> r3 \<noteq> [] \<and> list_all isDigit r3))"

definition loopMatch :: "string \<Rightarrow> string option" where
  "loopMatch s =
     (let n = length (takeWhile (\<lambda>c. \<not> isLineTerminator c) s)
      in map_option (\<lambda>k. take k s)
           (find (\<lambda>k. matchesTail (drop k s)) (rev [1..<Suc n])))"

definition getOriginalProductId :: "string \<Rightarrow> string" where
  "getOriginalProductId ident = (case loopMatch ident of Some g \<Rightarrow> g | None \<Rightarrow> ident)"

text \<open>An identifier that the stripping can recover: not empty, no line terminator.\<close>

definition strippable :: "string \<Rightarrow> bool" where
  "strippable ident \<longleftrightarrow> ident \<noteq> [] \<and> list_all (\<lambda>c. \<not> isLineTerminator c) ident"

subsection \<open>FavoritesProvider: the session favourites list\<close>

text \<open>The three updater functions passed to \<^verbatim>\<open>setFavorites\<close>, as functions of the previous
  list \<open>prev\<close>. The updater of \<^verbatim>\<open>toggleFavorite\<close> also assigns \<^verbatim>\<open>wasAdded\<close>, returned here as
  the second component.\<close>

definition isFavorite :: "string \<Rightarrow> product list \<Rightarrow> bool" where
  "isFavorite productId favorites = list_ex (\<lambda>p. product_id p = productId) favorites"

definition addToFavorites :: "product \<Rightarrow> product list \<Rightarrow> product list" where
  "addToFavorites product prev =
     (if list_ex (\<lambda>p. product_id p = product_id product) prev then prev
      else prev @ [product])"

definition removeFromFavorites :: "string \<Rightarrow> product list \<Rightarrow> product list" where
  "removeFromFavorites productId prev = filter (\<lambda>p. product_id p \<noteq> productId) prev"

definition toggleFavorite :: "product \<Rightarrow> product list \<Rightarrow> product list \<times> bool" where
  "toggleFavorite product prev =
     (let exists = list_ex (\<lambda>p. product_id p = product_id product) prev
      in if exists then (filter (\<lambda>p. product_id p \<noteq> product_id product) prev, False)
         else (prev @ [product], True))"

datatype favorites_op =
    AddToFavorites product
  | RemoveFromFavorites string
  | ToggleFavorite product

fun applyFavoritesOp :: "favorites_op \<Rightarrow> product list \<Rightarrow> product list" where
  "applyFavoritesOp (AddToFavorites product) prev = addToFavorites product prev"
| "applyFavoritesOp (RemoveFromFavorites productId) prev = removeFromFavorites productId prev"
| "applyFavoritesOp (ToggleFavorite product) prev = fst (toggleFavorite product prev)"

text \<open>The list after a sequence of operations, from \<^verbatim>\<open>useState<Product[]>([])\<close>.\<close>

fun favoritesAfter :: "favorites_op list \<Rightarrow> product list \<Rightarrow> product list" where
  "favoritesAfter [] favorites = favorites"
| "favoritesAfter (opn # ops) favorites = favoritesAfter ops (applyFavoritesOp opn favorites)"

subsection \<open>HomeScreen: the favourite button of a product card\<close>

text \<open>The awaited network call either resolves or rejects; which one is the server's
  choice and a parameter of the model.\<close>

datatype api_outcome = Resolved | Rejected

text \<open>
  \<^verbatim>\<open>handleFavoritePress\<close> of the home screen. \<open>favoriteIds\<close> is the set the handler's closure
  reads (\<^verbatim>\<open>favoriteIds.has(productId)\<close>); \<open>prev\<close> is the set the functional update
  \<^verbatim>\<open>setFavoriteIds(prev => ...)\<close> receives once the call has resolved. The result is the set
  afterwards and the effects in order.
\<close>

definition HomeScreen_handleFavoritePress ::
  "product \<Rightarrow> string set \<Rightarrow> api_outcome \<Rightarrow> string set \<Rightarrow> string set \<times> effect list" where
  "HomeScreen_handleFavoritePress product favoriteIds outcome prev =
     (let productId = product_id product;
          isFav = (productId \<in> favoriteIds)
      in if isFav then
           (case outcome of
              Resolved \<Rightarrow> (prev - {productId},
                 [RemoveFavoriteCall productId, SetFavoriteIds (prev - {productId})])
            | Rejected \<Rightarrow> (prev,
                 [RemoveFavoriteCall productId,
                  ConsoleError ''[HomeScreen] Error toggling favorite:'']))
         else
           (case outcome of
              Resolved \<Rightarrow> (insert productId prev,
                 [AddFavoriteCall productId, SetFavoriteIds (insert productId prev)])
            | Rejected \<Rightarrow> (prev,
                 [AddFavoriteCall productId,
                  ConsoleError ''[HomeScreen] Error toggling favorite:''])))"

subsection \<open>EnhancedReelItem: the favourite toggle of the feed\<close>

text \<open>
  The two \<^verbatim>\<open>useState\<close> values the toggle reads. A handler reads the values of the render
  that created it; its \<^verbatim>\<open>setFavorited\<close> and \<^verbatim>\<open>setIsTogglingFavorite\<close> calls are effects,
  applied to the state in order by \<open>applyEffects\<close>.
\<close>

record reel_state =
  favorited :: bool
  isTogglingFavorite :: bool

fun applyEffect :: "effect \<Rightarrow> reel_state \<Rightarrow> reel_state" where
  "applyEffect (SetFavorited b) st = st\<lparr>favorited := b\<rparr>"
| "applyEffect (SetIsTogglingFavorite b) st = st\<lparr>isTogglingFavorite := b\<rparr>"
| "applyEffect _ st = st"

fun applyEffects :: "effect list \<Rightarrow> reel_state \<Rightarrow> reel_state" where
  "applyEffects [] st = st"
| "applyEffects (e # es) st = applyEffects es (applyEffect e st)"

text \<open>\<^verbatim>\<open>toggleFavoriteAPI\<close>: the effects in order, and the value the promise resolves to. The
  \<^verbatim>\<open>finally\<close> block runs on both paths of the \<^verbatim>\<open>try\<close>, not on the early return.\<close>

definition toggleFavoriteAPI ::
  "string \<Rightarrow> reel_state \<Rightarrow> api_outcome \<Rightarrow> effect list \<times> bool" where
  "toggleFavoriteAPI originalProductId st outcome =
     (if isTogglingFavorite st then ([], favorited st)
      else if favorited st then
        (case outcome of
           Resolved \<Rightarrow>
             ([SetIsTogglingFavorite True, RemoveFavoriteCall originalProductId,
               SetFavorited False, SetIsTogglingFavorite False], False)
         | Rejected \<Rightarrow>
             ([SetIsTogglingFavorite True, RemoveFavoriteCall originalProductId,
               ConsoleError ''[EnhancedReelItem] Error toggling favorite:'',
               SetIsTogglingFavorite False], favorited st))
      else
        (case outcome of
           Resolved \<Rightarrow>
             ([SetIsTogglingFavorite True, AddFavoriteCall originalProductId,
               SetFavorited True, SetIsTogglingFavorite False], True)
         | Rejected \<Rightarrow>
             ([SetIsTogglingFavorite True, AddFavoriteCall originalProductId,
               ConsoleError ''[EnhancedReelItem] Error toggling favorite:'',
               SetIsTogglingFavorite False], favorited st)))"

text \<open>\<^verbatim>\<open>handleFavoritePress\<close> of the reel item: the optimistic update, the animations, then
  \<^verbatim>\<open>toggleFavoriteAPI()\<close> of the same render, whose result is dropped.\<close>

definition EnhancedReelItem_handleFavoritePress ::
  "string \<Rightarrow> reel_state \<Rightarrow> api_outcome \<Rightarrow> effect list" where
  "EnhancedReelItem_handleFavoritePress originalProductId st outcome =
     (let wasLiked = \<not> favorited st
      in [SetFavorited wasLiked]
         @ (if wasLiked then [TriggerHeartAnimation] else [])
         @ [TriggerFavoritePulse]
         @ fst (toggleFavoriteAPI originalProductId st outcome))"

definition isNetworkCall :: "effect \<Rightarrow> bool" where
  "isNetworkCall e = (case e of AddFavoriteCall _ \<Rightarrow> True | RemoveFavoriteCall _ \<Rightarrow> True
     | _ \<Rightarrow> False)"

definition networkCalls :: "effect list \<Rightarrow> effect list" where
  "networkCalls es = filter isNetworkCall es"

subsection \<open>ReelItem: single and double tap\<close>

text \<open>
  The item keeps two refs: the time of the last tap and the handle of the pending
  single-tap timeout. The timeouts themselves live in the JavaScript runtime; the model
  keeps them in the state as a list of (handle, due time), with the handle the next
  \<^verbatim>\<open>setTimeout\<close> returns. Handles are positive integers, hence truthy in
  \<^verbatim>\<open>if (tapTimeoutRef.current)\<close>. The list of the FavoritesProvider is part of the state
  because the double tap toggles it; the updater of \<open>toggleFavorite\<close> is taken to run
  before \<^verbatim>\<open>wasAdded\<close> is read.
\<close>

definition DOUBLE_TAP_DELAY :: int where
  "DOUBLE_TAP_DELAY = 300"

record tap_state =
  lastTapRef :: int
  tapTimeoutRef :: "nat option"
  timers :: "(nat \<times> int) list"
  nextTimer :: nat
  providerFavorites :: "product list"

definition setTimeout :: "int \<Rightarrow> int \<Rightarrow> tap_state \<Rightarrow> nat \<times> tap_state" where
  "setTimeout delay now st =
     (nextTimer st,
      st\<lparr>timers := timers st @ [(nextTimer st, now + delay)], nextTimer := Suc (nextTimer st)\<rparr>)"

definition clearTimeout :: "nat \<Rightarrow> tap_state \<Rightarrow> tap_state" where
  "clearTimeout h st = st\<lparr>timers := filter (\<lambda>(k, due). k \<noteq> h) (timers st)\<rparr>"

definition handleTap :: "product \<Rightarrow> int \<Rightarrow> tap_state \<Rightarrow> tap_state \<times> effect list" where
  "handleTap product now st =
     (let timeSinceLastTap = now - lastTapRef st
      in if timeSinceLastTap < DOUBLE_TAP_DELAY then
           let st1 = (case tapTimeoutRef st of
                        Some h \<Rightarrow> (clearTimeout h st)\<lparr>tapTimeoutRef := None\<rparr>
                      | None \<Rightarrow> st);
               (favs, wasAdded) = toggleFavorite product (providerFavorites st1)
           in (st1\<lparr>providerFavorites := favs, lastTapRef := 0\<rparr>,
               ToggleFavoriteCall (product_id product)
                 # (if wasAdded then [TriggerHeartAnimation] else []))
         else
           let (h, st1) = setTimeout DOUBLE_TAP_DELAY now (st\<lparr>lastTapRef := now\<rparr>)
           in (st1\<lparr>tapTimeoutRef := Some h\<rparr>, []))"

text \<open>The callback given to \<^verbatim>\<open>setTimeout\<close>: \<^verbatim>\<open>onSingleTap(product); tapTimeoutRef.current = null\<close>.\<close>

definition singleTapTimeout :: "product \<Rightarrow> tap_state \<Rightarrow> tap_state \<times> effect list" where
  "singleTapTimeout product st =
     (st\<lparr>tapTimeoutRef := None\<rparr>, [OnSingleTap (product_id product)])"

text \<open>The runtime runs the callback of timeout \<open>h\<close> at time \<open>now\<close>: only a pending timeout
  runs, never before it is due (the clock reading of the handler that set it, plus the
  delay), possibly later, and it is no longer pending afterwards.\<close>

definition timerFires :: "product \<Rightarrow> nat \<Rightarrow> int \<Rightarrow> tap_state \<Rightarrow> tap_state \<times> effect list" where
  "timerFires product h now st =
     (case map_of (timers st) h of
        Some due \<Rightarrow>
          if due \<le> now then singleTapTimeout product (clearTimeout h st) else (st, [])
      | None \<Rightarrow> (st, []))"

text \<open>What happens to one item, in the order the event loop runs it: a tap with the clock
  reading of its handler, or the callback of a timeout.\<close>

datatype reel_event = Tap int | TimerFires nat int

fun reelEvent :: "product \<Rightarrow> reel_event \<Rightarrow> tap_state \<Rightarrow> tap_state \<times> effect list" where
  "reelEvent product (Tap now) st = handleTap product now st"
| "reelEvent product (TimerFires h now) st = timerFires product h now st"

fun reelEvents :: "product \<Rightarrow> reel_event list \<Rightarrow> tap_state \<Rightarrow> tap_state \<times> effect list" where
  "reelEvents product [] st = (st, [])"
| "reelEvents product (ev # evs) st =
     (let (st1, out) = reelEvent product ev st;
          (st2, outs) = reelEvents product evs st1
      in (st2, out @ outs))"

text \<open>A freshly mounted item, under a provider that holds \<open>favs\<close>.\<close>

definition reelMount :: "product list \<Rightarrow> tap_state" where
  "reelMount favs =
     \<lparr>lastTapRef = 0, tapTimeoutRef = None, timers = [], nextTimer = 1,
       providerFavorites = favs\<rparr>"

text \<open>Pending timeouts have distinct handles, all handed out already.\<close>

definition timers_wf :: "tap_state \<Rightarrow> bool" where
  "timers_wf st \<longleftrightarrow>
     distinct (map fst (timers st)) \<and> list_all (\<lambda>(h, due). h < nextTimer st) (timers st)"

fun tapTimes :: "reel_event list \<Rightarrow> int list" where
  "tapTimes [] = []"
| "tapTimes (Tap now # evs) = now # tapTimes evs"
| "tapTimes (TimerFires h now # evs) = tapTimes evs"

text \<open>\<open>spaced prev ts\<close>: every tap time of \<open>ts\<close> is at least 300 ms after the one before it,
  the first after \<open>prev\<close>.\<close>

fun spaced :: "int \<Rightarrow> int list \<Rightarrow> bool" where
  "spaced prev [] = True"
| "spaced prev (t # ts) = (t - prev \<ge> DOUBLE_TAP_DELAY \<and> spaced t ts)"

definition isToggleFavoriteCall :: "effect \<Rightarrow> bool" where
  "isToggleFavoriteCall e = (case e of ToggleFavoriteCall _ \<Rightarrow> True | _ \<Rightarrow> False)"

definition isOnSingleTap :: "effect \<Rightarrow> bool" where
  "isOnSingleTap e = (case e of OnSingleTap _ \<Rightarrow> True | _ \<Rightarrow> False)"

text \<open>Event lists made of timeout events only: all of them before the time \<open>bound\<close>,
  or at any time.\<close>

definition timerEventsBefore :: "int \<Rightarrow> reel_event list \<Rightarrow> bool" where
  "timerEventsBefore bound evs =
     list_all (\<lambda>ev. case ev of Tap _ \<Rightarrow> False | TimerFires h now \<Rightarrow> now < bound) evs"

definition timerEventsOnly :: "reel_event list \<Rightarrow> bool" where
  "timerEventsOnly evs =
     list_all (\<lambda>ev. case ev of Tap _ \<Rightarrow> False | TimerFires h now \<Rightarrow> True) evs"

text \<open>Sample products for the concrete instances below.\<close>

definition productA :: product where
  "productA = \<lparr>product_id = ''a'', title = ''A'', price = 10, imageUrl = ''a.png''\<rparr>"

definition productB :: product where
  "productB = \<lparr>product_id = ''b'', title = ''B'', price = 20, imageUrl = ''b.png''\<rparr>"






text \<open>Two sample products with the same id, for the concrete instances below.\<close>

definition lamp :: product where
  "lamp = \<lparr>product_id = ''p1'', title = ''Lamp'', price = 450, imageUrl = ''lamp.png''\<rparr>"

definition lampRelisted :: product where
  "lampRelisted =
     \<lparr>product_id = ''p1'', title = ''Lamp (relisted)'', price = 500, imageUrl = ''lamp2.png''\<rparr>"

subsection \<open>Auxiliary notions of the proofs\<close>

text \<open>The number of underscores of a string, and one pass of the inner loop as a list.\<close>

definition underscores :: "string \<Rightarrow> nat" where
  "underscores s = length (filter (\<lambda>c. c = CHR ''_'') s)"

definition loopRow :: "nat \<Rightarrow> product list \<Rightarrow> product list" where
  "loopRow i shuffled =
     map (\<lambda>(idx, product). product\<lparr>product_id := loopId (product_id product) i idx\<rparr>)
       (enumerate 0 shuffled)"

section \<open>Properties\<close>

subsection \<open>Overscroll detector\<close>

lemma overscrollAttempt_bottomFling: "overscrollAttempt bottomFling"
  by (simp add: overscrollAttempt_def atBottom_def bottomFling_def paddingToBottom_def)

lemma handleScrollEndDrag_attempt:
  assumes "overscrollAttempt ev"
  shows "handleScrollEndDrag ev now st =
     (let c1 = (if now - lastOverscrollRef st > OVERSCROLL_WINDOW then 0
                else overscrollCountRef st) + 1
      in if c1 \<ge> 3
         then (\<lparr>overscrollCountRef = 0, lastOverscrollRef = now\<rparr>,
               [HapticImpact, HapticWarning, Navigate ''UpsideDown''])
         else (\<lparr>overscrollCountRef = c1, lastOverscrollRef = now\<rparr>, [HapticImpact]))"
  using assms by (simp add: handleScrollEndDrag_def Let_def)

lemma handleScrollEndDrag_fresh:
  assumes "overscrollAttempt ev"
    and "overscrollCountRef st = 0 \<or> now - lastOverscrollRef st > OVERSCROLL_WINDOW"
  shows "handleScrollEndDrag ev now st =
     (\<lparr>overscrollCountRef = 1, lastOverscrollRef = now\<rparr>, [HapticImpact])"
  using assms by (auto simp: handleScrollEndDrag_attempt Let_def)

text \<open>
  Claim C1. Three overscroll attempts in a row, the first starting a fresh count (the
  counter is 0, or the previous attempt is more than 3000 ms old) and each of the next two
  at most 3000 ms after the one before: the first two attempts only give the haptic
  impact, the third also navigates to 'UpsideDown', and the counter is 0 afterwards. So
  the unlock fires exactly once, on the third attempt.
\<close>

theorem overscroll_unlock_on_third:
  assumes "overscrollAttempt e1" and "overscrollAttempt e2" and "overscrollAttempt e3"
    and "overscrollCountRef st = 0 \<or> t1 - lastOverscrollRef st > OVERSCROLL_WINDOW"
    and "t2 - t1 \<le> OVERSCROLL_WINDOW" and "t3 - t2 \<le> OVERSCROLL_WINDOW"
  shows "scrollEvents [(e1, t1), (e2, t2), (e3, t3)] st =
     (\<lparr>overscrollCountRef = 0, lastOverscrollRef = t3\<rparr>,
      [[HapticImpact], [HapticImpact], [HapticImpact, HapticWarning, Navigate ''UpsideDown'']])"
proof -
  have s1: "handleScrollEndDrag e1 t1 st =
      (\<lparr>overscrollCountRef = 1, lastOverscrollRef = t1\<rparr>, [HapticImpact])"
    using assms(1,4) by (rule handleScrollEndDrag_fresh)
  have s2: "handleScrollEndDrag e2 t2 \<lparr>overscrollCountRef = 1, lastOverscrollRef = t1\<rparr> =
      (\<lparr>overscrollCountRef = 2, lastOverscrollRef = t2\<rparr>, [HapticImpact])"
    using assms(2,5) by (simp add: handleScrollEndDrag_attempt)
  have s3: "handleScrollEndDrag e3 t3 \<lparr>overscrollCountRef = 2, lastOverscrollRef = t2\<rparr> =
      (\<lparr>overscrollCountRef = 0, lastOverscrollRef = t3\<rparr>,
       [HapticImpact, HapticWarning, Navigate ''UpsideDown''])"
    using assms(3,6) by (simp add: handleScrollEndDrag_attempt)
  show ?thesis by (simp add: s1 s2 s3)
qed

theorem overscroll_unlock_on_third_witness:
  "overscrollAttempt bottomFling \<and> overscrollCountRef mountState = 0 \<and>
   500 - 0 \<le> OVERSCROLL_WINDOW \<and> 1200 - 500 \<le> OVERSCROLL_WINDOW \<and>
   scrollEvents [(bottomFling, 0), (bottomFling, 500), (bottomFling, 1200)] mountState =
     (\<lparr>overscrollCountRef = 0, lastOverscrollRef = 1200\<rparr>,
      [[HapticImpact], [HapticImpact], [HapticImpact, HapticWarning, Navigate ''UpsideDown'']])"
proof -
  have w: "500 - 0 \<le> OVERSCROLL_WINDOW" "1200 - 500 \<le> OVERSCROLL_WINDOW"
    by (simp_all add: OVERSCROLL_WINDOW_def)
  have c: "overscrollCountRef mountState = 0 \<or> 0 - lastOverscrollRef mountState > OVERSCROLL_WINDOW"
    by (simp add: mountState_def)
  show ?thesis
    using overscroll_unlock_on_third [OF overscrollAttempt_bottomFling
        overscrollAttempt_bottomFling overscrollAttempt_bottomFling c w]
      overscrollAttempt_bottomFling w
    by (simp add: mountState_def)
qed

text \<open>
  Claim C4. (i) An overscroll attempt that comes more than 3000 ms after the previous one
  leaves the counter at 1, whatever it was, and does not navigate: the counter is reset to
  0 before the increment. (ii) From the mount state, attempts at 0, 500 and 4000 ms never
  navigate and leave the counter at 1. (iii) Two attempts (the first starting a fresh
  count), a gap of more than 3000 ms, and two more attempts never navigate.
\<close>

theorem overscroll_stale_attempt_resets:
  assumes "overscrollAttempt e1" and "overscrollAttempt e2"
    and "overscrollAttempt e3" and "overscrollAttempt e4"
  shows "(now - lastOverscrollRef st > OVERSCROLL_WINDOW \<longrightarrow>
            handleScrollEndDrag e1 now st =
              (\<lparr>overscrollCountRef = 1, lastOverscrollRef = now\<rparr>, [HapticImpact])) \<and>
         scrollEvents [(e1, 0), (e2, 500), (e3, 4000)] mountState =
            (\<lparr>overscrollCountRef = 1, lastOverscrollRef = 4000\<rparr>,
             [[HapticImpact], [HapticImpact], [HapticImpact]]) \<and>
         ((overscrollCountRef st = 0 \<or> ta - lastOverscrollRef st > OVERSCROLL_WINDOW) \<and>
          tc - tb > OVERSCROLL_WINDOW \<longrightarrow>
            unlockCount (snd (scrollEvents [(e1, ta), (e2, tb), (e3, tc), (e4, td)] st)) = 0)"
proof (intro conjI impI)
  assume "now - lastOverscrollRef st > OVERSCROLL_WINDOW"
  then show "handleScrollEndDrag e1 now st =
      (\<lparr>overscrollCountRef = 1, lastOverscrollRef = now\<rparr>, [HapticImpact])"
    using assms(1) by (simp add: handleScrollEndDrag_fresh)
next
  show "scrollEvents [(e1, 0), (e2, 500), (e3, 4000)] mountState =
      (\<lparr>overscrollCountRef = 1, lastOverscrollRef = 4000\<rparr>,
       [[HapticImpact], [HapticImpact], [HapticImpact]])"
    using assms(1,2,3)
    by (simp add: handleScrollEndDrag_attempt mountState_def OVERSCROLL_WINDOW_def)
next
  assume a: "(overscrollCountRef st = 0 \<or> ta - lastOverscrollRef st > OVERSCROLL_WINDOW) \<and>
      tc - tb > OVERSCROLL_WINDOW"
  have s1: "handleScrollEndDrag e1 ta st =
      (\<lparr>overscrollCountRef = 1, lastOverscrollRef = ta\<rparr>, [HapticImpact])"
    using assms(1) a by (simp add: handleScrollEndDrag_fresh)
  obtain c2 where s2: "handleScrollEndDrag e2 tb \<lparr>overscrollCountRef = 1, lastOverscrollRef = ta\<rparr> =
      (\<lparr>overscrollCountRef = c2, lastOverscrollRef = tb\<rparr>, [HapticImpact])"
    using assms(2) by (cases "tb - ta > OVERSCROLL_WINDOW") (simp_all add: handleScrollEndDrag_attempt)
  have s3: "handleScrollEndDrag e3 tc \<lparr>overscrollCountRef = c2, lastOverscrollRef = tb\<rparr> =
      (\<lparr>overscrollCountRef = 1, lastOverscrollRef = tc\<rparr>, [HapticImpact])"
    using assms(3) a by (simp add: handleScrollEndDrag_fresh)
  obtain c4 where s4: "handleScrollEndDrag e4 td \<lparr>overscrollCountRef = 1, lastOverscrollRef = tc\<rparr> =
      (\<lparr>overscrollCountRef = c4, lastOverscrollRef = td\<rparr>, [HapticImpact])"
    using assms(4) by (cases "td - tc > OVERSCROLL_WINDOW") (simp_all add: handleScrollEndDrag_attempt)
  show "unlockCount (snd (scrollEvents [(e1, ta), (e2, tb), (e3, tc), (e4, td)] st)) = 0"
    by (simp add: s1 s2 s3 s4 unlockCount_def)
qed

theorem overscroll_stale_attempt_resets_witness:
  "overscrollAttempt bottomFling \<and>
   9000 - lastOverscrollRef \<lparr>overscrollCountRef = 2, lastOverscrollRef = 1000\<rparr> > OVERSCROLL_WINDOW \<and>
   handleScrollEndDrag bottomFling 9000 \<lparr>overscrollCountRef = 2, lastOverscrollRef = 1000\<rparr> =
     (\<lparr>overscrollCountRef = 1, lastOverscrollRef = 9000\<rparr>, [HapticImpact]) \<and>
   scrollEvents [(bottomFling, 0), (bottomFling, 500), (bottomFling, 4000)] mountState =
     (\<lparr>overscrollCountRef = 1, lastOverscrollRef = 4000\<rparr>,
      [[HapticImpact], [HapticImpact], [HapticImpact]]) \<and>
   unlockCount (snd (scrollEvents
     [(bottomFling, 9000), (bottomFling, 9400), (bottomFling, 12401), (bottomFling, 12900)]
     \<lparr>overscrollCountRef = 2, lastOverscrollRef = 1000\<rparr>)) = 0"
proof -
  note th = overscroll_stale_attempt_resets [where now = 9000 and ta = 9000 and tb = 9400
      and tc = 12401 and td = 12900
      and st = "\<lparr>overscrollCountRef = 2, lastOverscrollRef = 1000\<rparr>",
      OF overscrollAttempt_bottomFling overscrollAttempt_bottomFling
        overscrollAttempt_bottomFling overscrollAttempt_bottomFling]
  have a: "9000 - lastOverscrollRef \<lparr>overscrollCountRef = 2, lastOverscrollRef = 1000\<rparr>
      > OVERSCROLL_WINDOW"
    by (simp add: OVERSCROLL_WINDOW_def)
  have b: "(overscrollCountRef \<lparr>overscrollCountRef = 2, lastOverscrollRef = 1000\<rparr> = 0 \<or>
       9000 - lastOverscrollRef \<lparr>overscrollCountRef = 2, lastOverscrollRef = 1000\<rparr>
         > OVERSCROLL_WINDOW) \<and> 12401 - 9400 > OVERSCROLL_WINDOW"
    by (simp add: OVERSCROLL_WINDOW_def)
  show ?thesis
    using overscrollAttempt_bottomFling a th [THEN conjunct1, rule_format, OF a]
      th [THEN conjunct2, THEN conjunct1] th [THEN conjunct2, THEN conjunct2, rule_format, OF b]
    by (intro conjI)
qed

subsection \<open>Session favourites\<close>

lemma list_ex_product_id:
  "list_ex (\<lambda>p. product_id p = i) favorites \<longleftrightarrow> i \<in> set (map product_id favorites)"
  by (auto simp: list_ex_iff)

lemma distinct_addToFavorites:
  "distinct (map product_id prev) \<Longrightarrow> distinct (map product_id (addToFavorites product prev))"
  by (simp add: addToFavorites_def list_ex_product_id)

lemma distinct_removeFromFavorites:
  "distinct (map product_id prev) \<Longrightarrow> distinct (map product_id (removeFromFavorites productId prev))"
  by (simp add: removeFromFavorites_def distinct_map_filter)

lemma distinct_toggleFavorite:
  "distinct (map product_id prev) \<Longrightarrow> distinct (map product_id (fst (toggleFavorite product prev)))"
  by (simp add: toggleFavorite_def Let_def list_ex_product_id distinct_map_filter)

lemma distinct_applyFavoritesOp:
  "distinct (map product_id prev) \<Longrightarrow> distinct (map product_id (applyFavoritesOp opn prev))"
  by (cases opn)
    (simp_all add: distinct_addToFavorites distinct_removeFromFavorites distinct_toggleFavorite)

lemma distinct_favoritesAfter:
  "distinct (map product_id favorites) \<Longrightarrow> distinct (map product_id (favoritesAfter ops favorites))"
  by (induction ops arbitrary: favorites) (simp_all add: distinct_applyFavoritesOp)

text \<open>
  Claim C10. After any sequence of addToFavorites, removeFromFavorites and toggleFavorite
  from the empty list, no two products of the favourites list have the same id. Moreover
  addToFavorites changes nothing when a product with that id is in the list, and after
  toggleFavorite of such a product no entry with that id is left.
\<close>

theorem favorites_ids_unique:
  "distinct (map product_id (favoritesAfter ops [])) \<and>
   (isFavorite (product_id product) favorites \<longrightarrow> addToFavorites product favorites = favorites) \<and>
   (isFavorite (product_id product) favorites \<longrightarrow>
      \<not> isFavorite (product_id product) (fst (toggleFavorite product favorites)))"
  by (simp add: distinct_favoritesAfter isFavorite_def addToFavorites_def toggleFavorite_def
      list_ex_iff)

theorem favorites_ids_unique_witness:
  "isFavorite (product_id lampRelisted) [lamp] \<and>
   addToFavorites lampRelisted [lamp] = [lamp] \<and>
   \<not> isFavorite (product_id lampRelisted) (fst (toggleFavorite lampRelisted [lamp])) \<and>
   distinct (map product_id (favoritesAfter
     [AddToFavorites lamp, AddToFavorites lampRelisted, ToggleFavorite lampRelisted,
      ToggleFavorite lamp] []))"
proof -
  have h: "isFavorite (product_id lampRelisted) [lamp]"
    by (simp add: isFavorite_def lamp_def lampRelisted_def)
  show ?thesis
    using h favorites_ids_unique [of "[AddToFavorites lamp, AddToFavorites lampRelisted,
      ToggleFavorite lampRelisted, ToggleFavorite lamp]" lampRelisted "[lamp]"]
    by blast
qed

subsection \<open>HomeScreen favourite button\<close>

text \<open>
  Claim C9. When the awaited addFavorite or removeFavorite call rejects, the favoriteIds
  set is the one the state held before (no update is made) and the only effects are the
  call and the console error. When the call resolves, the update of the set comes after
  the call: the id is deleted if the closure saw it as a favourite, added otherwise.
\<close>

theorem HomeScreen_toggle_atomic:
  "(outcome = Rejected \<longrightarrow>
      fst (HomeScreen_handleFavoritePress product favoriteIds outcome prev) = prev \<and>
      snd (HomeScreen_handleFavoritePress product favoriteIds outcome prev) =
        [if product_id product \<in> favoriteIds then RemoveFavoriteCall (product_id product)
         else AddFavoriteCall (product_id product),
         ConsoleError ''[HomeScreen] Error toggling favorite:'']) \<and>
   (outcome = Resolved \<longrightarrow>
      (let new = (if product_id product \<in> favoriteIds then prev - {product_id product}
                  else insert (product_id product) prev)
       in HomeScreen_handleFavoritePress product favoriteIds outcome prev =
         (new, [if product_id product \<in> favoriteIds then RemoveFavoriteCall (product_id product)
                else AddFavoriteCall (product_id product), SetFavoriteIds new])))"
  by (cases outcome) (simp_all add: HomeScreen_handleFavoritePress_def Let_def)

theorem HomeScreen_toggle_atomic_witness:
  "fst (HomeScreen_handleFavoritePress lamp {''p1''} Rejected {''p1'', ''p2''}) = {''p1'', ''p2''} \<and>
   snd (HomeScreen_handleFavoritePress lamp {''p1''} Rejected {''p1'', ''p2''}) =
     [RemoveFavoriteCall ''p1'', ConsoleError ''[HomeScreen] Error toggling favorite:''] \<and>
   HomeScreen_handleFavoritePress lamp {} Resolved {''p2''} =
     ({''p1'', ''p2''}, [AddFavoriteCall ''p1'', SetFavoriteIds {''p1'', ''p2''}])"
  using HomeScreen_toggle_atomic [of Rejected lamp "{''p1''}" "{''p1'', ''p2''}"]
    HomeScreen_toggle_atomic [of Resolved lamp "{}" "{''p2''}"]
  by (simp add: lamp_def Let_def)


subsection \<open>Feed favourite toggle\<close>

text \<open>
  Claim C6, as stated, fails: an invocation from a render in which isTogglingFavorite is
  true (a toggle is in flight) returns at once and issues no network call.
\<close>

theorem toggleFavoriteAPI_guard_counterexample:
  "networkCalls (fst (toggleFavoriteAPI ''p1''
      \<lparr>favorited = False, isTogglingFavorite = True\<rparr> Resolved)) = [] \<and>
   length (networkCalls (fst (toggleFavoriteAPI ''p1''
      \<lparr>favorited = False, isTogglingFavorite = True\<rparr> Resolved))) \<noteq> 1"
  by (simp add: toggleFavoriteAPI_def networkCalls_def)

text \<open>
  Claim C6, amended. An invocation of toggleFavoriteAPI from a render in which
  isTogglingFavorite is false issues exactly one network call, removeFavorite when the
  product is favorited and addFavorite when it is not; it returns the new state when the
  call resolves (true if added, false if removed), which is then also the local state, and
  the unchanged state when the call rejects. An invocation from a render in which
  isTogglingFavorite is true issues no call, has no effect and returns the favorited value
  of that render.
\<close>

theorem toggleFavoriteAPI_contract:
  "(\<not> isTogglingFavorite st \<longrightarrow>
      networkCalls (fst (toggleFavoriteAPI pid st outcome)) =
        [if favorited st then RemoveFavoriteCall pid else AddFavoriteCall pid] \<and>
      snd (toggleFavoriteAPI pid st outcome) =
        (case outcome of Resolved \<Rightarrow> \<not> favorited st | Rejected \<Rightarrow> favorited st) \<and>
      favorited (applyEffects (fst (toggleFavoriteAPI pid st outcome)) st) =
        (case outcome of Resolved \<Rightarrow> \<not> favorited st | Rejected \<Rightarrow> favorited st)) \<and>
   (isTogglingFavorite st \<longrightarrow> toggleFavoriteAPI pid st outcome = ([], favorited st))"
  by (cases outcome)
    (simp_all add: toggleFavoriteAPI_def networkCalls_def isNetworkCall_def)

theorem toggleFavoriteAPI_contract_witness:
  "\<not> isTogglingFavorite \<lparr>favorited = False, isTogglingFavorite = False\<rparr> \<and>
   networkCalls (fst (toggleFavoriteAPI ''p1''
      \<lparr>favorited = False, isTogglingFavorite = False\<rparr> Resolved)) = [AddFavoriteCall ''p1''] \<and>
   snd (toggleFavoriteAPI ''p1'' \<lparr>favorited = False, isTogglingFavorite = False\<rparr> Resolved) \<and>
   isTogglingFavorite \<lparr>favorited = True, isTogglingFavorite = True\<rparr> \<and>
   toggleFavoriteAPI ''p1'' \<lparr>favorited = True, isTogglingFavorite = True\<rparr> Rejected = ([], True)"
  using toggleFavoriteAPI_contract [of "\<lparr>favorited = False, isTogglingFavorite = False\<rparr>" "''p1''" Resolved]
    toggleFavoriteAPI_contract [of "\<lparr>favorited = True, isTogglingFavorite = True\<rparr>" "''p1''" Rejected]
  by simp

text \<open>
  Claim C7. The first effect of the feed's handleFavoritePress is the flip of the local
  favorited value, before any network call (the calls are those of toggleFavoriteAPI, which
  runs last). After the handler the local value is the flipped one whatever the outcome of
  the call. When the call rejects, what follows it is the console error and the reset of
  isTogglingFavorite, and no setFavorited: the optimistic value is not rolled back.
\<close>

theorem optimistic_toggle_no_rollback:
  "(\<exists>rest. EnhancedReelItem_handleFavoritePress pid st outcome =
        SetFavorited (\<not> favorited st) # rest \<and>
        networkCalls rest = networkCalls (fst (toggleFavoriteAPI pid st outcome))) \<and>
   favorited (applyEffects (EnhancedReelItem_handleFavoritePress pid st outcome) st) =
     (\<not> favorited st) \<and>
   (\<not> isTogglingFavorite st \<longrightarrow>
      EnhancedReelItem_handleFavoritePress pid st Rejected =
        [SetFavorited (\<not> favorited st)]
        @ (if \<not> favorited st then [TriggerHeartAnimation] else [])
        @ [TriggerFavoritePulse, SetIsTogglingFavorite True,
           if favorited st then RemoveFavoriteCall pid else AddFavoriteCall pid,
           ConsoleError ''[EnhancedReelItem] Error toggling favorite:'',
           SetIsTogglingFavorite False])"
  by (cases outcome)
    (simp_all add: EnhancedReelItem_handleFavoritePress_def toggleFavoriteAPI_def
      networkCalls_def isNetworkCall_def)

theorem optimistic_toggle_no_rollback_witness:
  "\<not> isTogglingFavorite \<lparr>favorited = False, isTogglingFavorite = False\<rparr> \<and>
   EnhancedReelItem_handleFavoritePress ''p1''
       \<lparr>favorited = False, isTogglingFavorite = False\<rparr> Rejected =
     [SetFavorited True, TriggerHeartAnimation, TriggerFavoritePulse,
      SetIsTogglingFavorite True, AddFavoriteCall ''p1'',
      ConsoleError ''[EnhancedReelItem] Error toggling favorite:'', SetIsTogglingFavorite False] \<and>
   favorited (applyEffects (EnhancedReelItem_handleFavoritePress ''p1''
       \<lparr>favorited = False, isTogglingFavorite = False\<rparr> Rejected)
       \<lparr>favorited = False, isTogglingFavorite = False\<rparr>)"
  using optimistic_toggle_no_rollback [of "''p1''" "\<lparr>favorited = False, isTogglingFavorite = False\<rparr>" Rejected]
  by simp

subsection \<open>Reel item taps\<close>

lemma handleTap_single:
  assumes "DOUBLE_TAP_DELAY \<le> now - lastTapRef st"
  shows "handleTap product now st =
     (st\<lparr>lastTapRef := now, tapTimeoutRef := Some (nextTimer st),
         timers := timers st @ [(nextTimer st, now + DOUBLE_TAP_DELAY)],
         nextTimer := Suc (nextTimer st)\<rparr>, [])"
  using assms by (simp add: handleTap_def setTimeout_def Let_def)

lemma handleTap_double:
  assumes "now - lastTapRef st < DOUBLE_TAP_DELAY"
  shows "handleTap product now st =
     (let st1 = (case tapTimeoutRef st of
                   Some h \<Rightarrow> (clearTimeout h st)\<lparr>tapTimeoutRef := None\<rparr>
                 | None \<Rightarrow> st)
      in (st1\<lparr>providerFavorites := fst (toggleFavorite product (providerFavorites st1)),
              lastTapRef := 0\<rparr>,
          ToggleFavoriteCall (product_id product)
            # (if snd (toggleFavorite product (providerFavorites st1))
               then [TriggerHeartAnimation] else [])))"
  using assms by (simp add: handleTap_def Let_def split_beta)

lemma filter_fresh_handle:
  assumes "list_all (\<lambda>(h, due). h < n) ts"
  shows "filter (\<lambda>(k, due). k \<noteq> (n::nat)) ts = ts"
  using assms by (induction ts) auto

lemma map_of_fresh_handle:
  assumes "list_all (\<lambda>(h, due). h < n) ts"
  shows "map_of ts (n::nat) = None"
  using assms by (induction ts) auto

lemma timers_wf_reelMount: "timers_wf (reelMount favs)"
  by (simp add: timers_wf_def reelMount_def)

lemmas reel_eval = reelMount_def handleTap_def timerFires_def singleTapTimeout_def
  setTimeout_def clearTimeout_def toggleFavorite_def DOUBLE_TAP_DELAY_def Let_def lamp_def

text \<open>
  The rapid triple tap of the spec's edge cases. With taps at 1000, 1100 and 1200 ms on a
  fresh item, the tap at 1100 ms is the double tap and resets the last-tap time to 0; the
  tap at 1200 ms starts a fresh single tap, whose callback fires 300 ms later.
\<close>

lemma rapid_triple_tap:
  "1200 - 1100 < DOUBLE_TAP_DELAY \<and>
   snd (reelEvents lamp [Tap 1000, Tap 1100] (reelMount [])) =
     [ToggleFavoriteCall ''p1'', TriggerHeartAnimation] \<and>
   snd (handleTap lamp 1200 (fst (reelEvents lamp [Tap 1000, Tap 1100] (reelMount [])))) = [] \<and>
   snd (reelEvents lamp [Tap 1000, Tap 1100, Tap 1200, TimerFires 2 1500] (reelMount [])) =
     [ToggleFavoriteCall ''p1'', TriggerHeartAnimation, OnSingleTap ''p1'']"
  by (simp add: reel_eval)

lemma double_tap_pair:
  assumes "timers_wf st"
    and "DOUBLE_TAP_DELAY \<le> t1 - lastTapRef st"
    and "t2 - t1 < DOUBLE_TAP_DELAY"
  shows "handleTap product t1 st =
           (st\<lparr>lastTapRef := t1, tapTimeoutRef := Some (nextTimer st),
               timers := timers st @ [(nextTimer st, t1 + DOUBLE_TAP_DELAY)],
               nextTimer := Suc (nextTimer st)\<rparr>, []) \<and>
         reelEvents product [Tap t1, Tap t2] st =
           (st\<lparr>lastTapRef := 0, tapTimeoutRef := None, nextTimer := Suc (nextTimer st),
               providerFavorites := fst (toggleFavorite product (providerFavorites st))\<rparr>,
            ToggleFavoriteCall (product_id product)
              # (if snd (toggleFavorite product (providerFavorites st))
                 then [TriggerHeartAnimation] else [])) \<and>
         (\<forall>now. timerFires product (nextTimer st) now
                  (fst (reelEvents product [Tap t1, Tap t2] st)) =
                (fst (reelEvents product [Tap t1, Tap t2] st), []))"
proof -
  let ?h = "nextTimer st"
  let ?s1 = "st\<lparr>lastTapRef := t1, tapTimeoutRef := Some ?h,
       timers := timers st @ [(?h, t1 + DOUBLE_TAP_DELAY)], nextTimer := Suc ?h\<rparr>"
  let ?s2 = "st\<lparr>lastTapRef := 0, tapTimeoutRef := None, nextTimer := Suc ?h,
       providerFavorites := fst (toggleFavorite product (providerFavorites st))\<rparr>"
  let ?out = "ToggleFavoriteCall (product_id product)
       # (if snd (toggleFavorite product (providerFavorites st))
          then [TriggerHeartAnimation] else [])"
  have fresh: "list_all (\<lambda>(h, due). h < ?h) (timers st)"
    using assms(1) by (simp add: timers_wf_def)
  have a: "handleTap product t1 st = (?s1, [])"
    using assms(2) by (rule handleTap_single)
  have "t2 - lastTapRef ?s1 < DOUBLE_TAP_DELAY"
    using assms(3) by simp
  then have b: "handleTap product t2 ?s1 = (?s2, ?out)"
    by (simp add: handleTap_double clearTimeout_def filter_fresh_handle [OF fresh])
  have c: "reelEvents product [Tap t1, Tap t2] st = (?s2, ?out)"
    by (simp add: a b)
  have "map_of (timers ?s2) ?h = None"
    using fresh by (simp add: map_of_fresh_handle)
  then have d: "timerFires product ?h now ?s2 = (?s2, [])" for now
    by (simp add: timerFires_def)
  show ?thesis
    using a c d by simp
qed


lemma reelEvents_append:
  "reelEvents product (xs @ ys) st =
     (let (s1, o1) = reelEvents product xs st;
          (s2, o2) = reelEvents product ys s1
      in (s2, o1 @ o2))"
  by (induction xs arbitrary: st) (simp_all add: split_beta)

lemma not_due_no_effect:
  assumes "timers s = [(h, due)]" and "timerEventsBefore due evs"
  shows "reelEvents product evs s = (s, [])"
  using assms(2)
proof (induction evs)
  case Nil
  then show ?case by simp
next
  case (Cons ev evs)
  then obtain k now where ev: "ev = TimerFires k now" and now: "now < due"
    and rest: "timerEventsBefore due evs"
    by (cases ev) (simp_all add: timerEventsBefore_def)
  have "timerFires product k now s = (s, [])"
    using assms(1) now by (simp add: timerFires_def)
  then show ?case
    using Cons.IH [OF rest] by (simp add: ev)
qed

lemma nothing_pending_no_effect:
  assumes "timers s = []" and "timerEventsOnly evs"
  shows "reelEvents product evs s = (s, [])"
  using assms(2)
proof (induction evs)
  case Nil
  then show ?case by simp
next
  case (Cons ev evs)
  then obtain k now where ev: "ev = TimerFires k now" and rest: "timerEventsOnly evs"
    by (cases ev) (simp_all add: timerEventsOnly_def)
  have "timerFires product k now s = (s, [])"
    using assms(1) by (simp add: timerFires_def)
  then show ?case
    using Cons.IH [OF rest] by (simp add: ev)
qed

lemma double_tap_any_schedule:
  assumes "timers st = []"
    and "DOUBLE_TAP_DELAY \<le> t1 - lastTapRef st"
    and "t2 - t1 < DOUBLE_TAP_DELAY"
    and "timerEventsBefore (t1 + DOUBLE_TAP_DELAY) between"
    and "timerEventsOnly later"
  shows "reelEvents product ([Tap t1] @ between @ [Tap t2] @ later) st =
     reelEvents product [Tap t1, Tap t2] st"
proof -
  define s1 where "s1 = fst (handleTap product t1 st)"
  define s2 where "s2 = fst (handleTap product t2 s1)"
  define out where "out = snd (handleTap product t2 s1)"
  have a: "handleTap product t1 st = (s1, [])"
    and t1: "timers s1 = [(nextTimer st, t1 + DOUBLE_TAP_DELAY)]"
    and r1: "tapTimeoutRef s1 = Some (nextTimer st)" "lastTapRef s1 = t1"
    using assms(1) by (simp_all add: s1_def handleTap_single [OF assms(2)])
  have b: "handleTap product t2 s1 = (s2, out)"
    by (simp add: s2_def out_def)
  have "t2 - lastTapRef s1 < DOUBLE_TAP_DELAY"
    using assms(3) r1 by simp
  then have t2: "timers s2 = []"
    by (simp add: s2_def handleTap_double r1 t1 clearTimeout_def)
  have c: "reelEvents product [Tap t1, Tap t2] st = (s2, out)"
    by (simp add: a b)
  have m: "reelEvents product between s1 = (s1, [])"
    using t1 assms(4) by (rule not_due_no_effect)
  have l: "reelEvents product later s2 = (s2, [])"
    using t2 assms(5) by (rule nothing_pending_no_effect)
  have "reelEvents product ([Tap t1] @ between @ [Tap t2] @ later) st = (s2, out)"
    by (simp add: reelEvents_append a b m l)
  then show ?thesis
    by (simp only: c)
qed

text \<open>
  The double tap when the ref still holds the handle of the first tap's timeout. Two taps
  handled one right after the other, the first at least 300 ms after the recorded last-tap
  time (so it takes the single-tap branch and schedules the deferred callback, due 300 ms
  later) and the second strictly less than 300 ms after the first: the second handler
  cancels that timeout, calls toggleFavorite exactly once within the handler and fires no
  single-tap callback; every timeout pending before the pair is still pending, the refs
  are reset, and the cancelled timeout never fires afterwards. On an item with no timeout
  pending at the first tap, whatever timeout events the runtime delivers between the two
  taps (before the callback is due) and after them, the outcome is the same.
\<close>

lemma double_tap_cancels_single_tap:
  assumes "timers_wf st"
    and "DOUBLE_TAP_DELAY \<le> t1 - lastTapRef st"
    and "t2 - t1 < DOUBLE_TAP_DELAY"
  shows "handleTap product t1 st =
           (st\<lparr>lastTapRef := t1, tapTimeoutRef := Some (nextTimer st),
               timers := timers st @ [(nextTimer st, t1 + DOUBLE_TAP_DELAY)],
               nextTimer := Suc (nextTimer st)\<rparr>, []) \<and>
         reelEvents product [Tap t1, Tap t2] st =
           (st\<lparr>lastTapRef := 0, tapTimeoutRef := None, nextTimer := Suc (nextTimer st),
               providerFavorites := fst (toggleFavorite product (providerFavorites st))\<rparr>,
            ToggleFavoriteCall (product_id product)
              # (if snd (toggleFavorite product (providerFavorites st))
                 then [TriggerHeartAnimation] else [])) \<and>
         (\<forall>now. timerFires product (nextTimer st) now
                  (fst (reelEvents product [Tap t1, Tap t2] st)) =
                (fst (reelEvents product [Tap t1, Tap t2] st), [])) \<and>
         (timers st = [] \<and> timerEventsBefore (t1 + DOUBLE_TAP_DELAY) between \<and>
          timerEventsOnly later \<longrightarrow>
            reelEvents product ([Tap t1] @ between @ [Tap t2] @ later) st =
              reelEvents product [Tap t1, Tap t2] st)"
  using double_tap_pair [OF assms, of product]
    double_tap_any_schedule [OF _ assms(2,3), of between later product]
  by blast

lemma double_tap_cancels_single_tap_example:
  "timers_wf (reelMount []) \<and> DOUBLE_TAP_DELAY \<le> 1000 - lastTapRef (reelMount []) \<and>
   1100 - 1000 < DOUBLE_TAP_DELAY \<and>
   reelEvents lamp [Tap 1000, Tap 1100] (reelMount []) =
     (\<lparr>lastTapRef = 0, tapTimeoutRef = None, timers = [], nextTimer = 2,
       providerFavorites = [lamp]\<rparr>,
      [ToggleFavoriteCall ''p1'', TriggerHeartAnimation]) \<and>
   timers (reelMount []) = [] \<and>
   timerEventsBefore (1000 + DOUBLE_TAP_DELAY) [TimerFires 1 1050] \<and>
   timerEventsOnly [TimerFires 1 1400, TimerFires 2 1500] \<and>
   reelEvents lamp
       ([Tap 1000] @ [TimerFires 1 1050] @ [Tap 1100] @ [TimerFires 1 1400, TimerFires 2 1500])
       (reelMount []) =
     (\<lparr>lastTapRef = 0, tapTimeoutRef = None, timers = [], nextTimer = 2,
       providerFavorites = [lamp]\<rparr>,
      [ToggleFavoriteCall ''p1'', TriggerHeartAnimation])"
proof -
  have h: "DOUBLE_TAP_DELAY \<le> 1000 - lastTapRef (reelMount [])"
      "1100 - 1000 < DOUBLE_TAP_DELAY"
    by (simp_all add: reelMount_def DOUBLE_TAP_DELAY_def)
  note th = double_tap_cancels_single_tap [OF timers_wf_reelMount h,
      of lamp "[TimerFires 1 1050]" "[TimerFires 1 1400, TimerFires 2 1500]"]
  have r: "reelEvents lamp [Tap 1000, Tap 1100] (reelMount []) =
     ((reelMount [])\<lparr>lastTapRef := 0, tapTimeoutRef := None,
         nextTimer := Suc (nextTimer (reelMount [])),
         providerFavorites := fst (toggleFavorite lamp (providerFavorites (reelMount [])))\<rparr>,
      ToggleFavoriteCall (product_id lamp)
        # (if snd (toggleFavorite lamp (providerFavorites (reelMount [])))
           then [TriggerHeartAnimation] else []))"
    using th by (rule conjunct1 [OF conjunct2])
  have e: "((reelMount [])\<lparr>lastTapRef := 0, tapTimeoutRef := None,
         nextTimer := Suc (nextTimer (reelMount [])),
         providerFavorites := fst (toggleFavorite lamp (providerFavorites (reelMount [])))\<rparr>,
      ToggleFavoriteCall (product_id lamp)
        # (if snd (toggleFavorite lamp (providerFavorites (reelMount [])))
           then [TriggerHeartAnimation] else [])) =
     (\<lparr>lastTapRef = 0, tapTimeoutRef = None, timers = [], nextTimer = 2,
       providerFavorites = [lamp]\<rparr>,
      [ToggleFavoriteCall ''p1'', TriggerHeartAnimation])"
    by (simp add: reelMount_def toggleFavorite_def lamp_def)
  note pair = trans [OF r e]
  have n: "timers (reelMount []) = []"
    by (simp add: reelMount_def)
  have bt: "timerEventsBefore (1000 + DOUBLE_TAP_DELAY) [TimerFires 1 1050]"
    by (simp add: timerEventsBefore_def DOUBLE_TAP_DELAY_def)
  have lt: "timerEventsOnly [TimerFires 1 1400, TimerFires 2 1500]"
    by (simp add: timerEventsOnly_def)
  have "reelEvents lamp
       ([Tap 1000] @ [TimerFires 1 1050] @ [Tap 1100] @ [TimerFires 1 1400, TimerFires 2 1500])
       (reelMount []) = reelEvents lamp [Tap 1000, Tap 1100] (reelMount [])"
    using th n bt lt by blast
  then have sched: "reelEvents lamp
       ([Tap 1000] @ [TimerFires 1 1050] @ [Tap 1100] @ [TimerFires 1 1400, TimerFires 2 1500])
       (reelMount []) =
     (\<lparr>lastTapRef = 0, tapTimeoutRef = None, timers = [], nextTimer = 2,
       providerFavorites = [lamp]\<rparr>,
      [ToggleFavoriteCall ''p1'', TriggerHeartAnimation])"
    by (simp only: pair)
  show ?thesis
    using timers_wf_reelMount [of "[]"] h pair n bt lt sched by (intro conjI)
qed

text \<open>
  Claim C3. For every pair of taps on one reel item with the second tap strictly less than
  300 ms after the first, the pending deferred single-tap callback is cancelled, the
  favourite toggle is invoked exactly once, within the handler, and no single-tap callback
  fires for the pair.

  The code misses this when the timeout of an earlier tap is still pending. The single-tap
  branch overwrites \<^verbatim>\<open>tapTimeoutRef\<close> without clearing the timeout it held, and every timeout
  callback sets the ref to null, whichever handle it holds. Below, on a fresh item: a tap
  at 1000 ms; a tap at 1305 ms, which takes the single-tap branch and stores the handle of
  its own timeout (due at 1605 ms); the callback of the first tap, due at 1300 ms, runs
  late, at 1310 ms, and sets the ref to null; a tap at 1400 ms, 95 ms after the tap at 1305
  ms, takes the double-tap branch and toggles the favourite, but finds the ref null and
  clears nothing; the timeout of the tap at 1305 ms is still pending, and its single-tap
  callback fires at 1605 ms. So for the pair of taps at 1305 and 1400 ms the pending
  callback is not cancelled and a single-tap callback fires after the toggle.
\<close>

theorem late_callback_defeats_double_tap:
  "DOUBLE_TAP_DELAY \<le> 1305 - 1000 \<and> 1400 - 1305 < DOUBLE_TAP_DELAY \<and>
   fst (reelEvents lamp [Tap 1000, Tap 1305] (reelMount [])) =
     \<lparr>lastTapRef = 1305, tapTimeoutRef = Some 2, timers = [(1, 1300), (2, 1605)],
       nextTimer = 3, providerFavorites = []\<rparr> \<and>
   reelEvents lamp [Tap 1000, Tap 1305, TimerFires 1 1310] (reelMount []) =
     (\<lparr>lastTapRef = 1305, tapTimeoutRef = None, timers = [(2, 1605)],
       nextTimer = 3, providerFavorites = []\<rparr>, [OnSingleTap ''p1'']) \<and>
   handleTap lamp 1400
       \<lparr>lastTapRef = 1305, tapTimeoutRef = None, timers = [(2, 1605)],
         nextTimer = 3, providerFavorites = []\<rparr> =
     (\<lparr>lastTapRef = 0, tapTimeoutRef = None, timers = [(2, 1605)],
       nextTimer = 3, providerFavorites = [lamp]\<rparr>,
      [ToggleFavoriteCall ''p1'', TriggerHeartAnimation]) \<and>
   reelEvents lamp [Tap 1000, Tap 1305, TimerFires 1 1310, Tap 1400, TimerFires 2 1605]
       (reelMount []) =
     (\<lparr>lastTapRef = 0, tapTimeoutRef = None, timers = [], nextTimer = 3,
       providerFavorites = [lamp]\<rparr>,
      [OnSingleTap ''p1'', ToggleFavoriteCall ''p1'', TriggerHeartAnimation, OnSingleTap ''p1''])"
  by (simp add: reel_eval)

subsection \<open>Reel item taps at least 300 ms apart\<close>

lemma timers_wf_handleTap_single:
  assumes "timers_wf st"
  shows "timers_wf (st\<lparr>lastTapRef := now, tapTimeoutRef := Some (nextTimer st),
         timers := timers st @ [(nextTimer st, due)],
         nextTimer := Suc (nextTimer st)\<rparr>)"
proof -
  have "list_all (\<lambda>(h, due). h < nextTimer st) (timers st)"
    using assms by (simp add: timers_wf_def)
  then have "list_all (\<lambda>(h, due). h < Suc (nextTimer st)) (timers st)"
    and "nextTimer st \<notin> fst ` set (timers st)"
    by (auto simp: list_all_iff)
  then show ?thesis
    using assms by (simp add: timers_wf_def)
qed

lemma timers_wf_clearTimeout:
  assumes "timers_wf st"
  shows "timers_wf (clearTimeout h st)"
  using assms
  by (auto simp: timers_wf_def clearTimeout_def distinct_map_filter list_all_iff)

lemma length_clearTimeout:
  assumes "distinct (map fst ts)" and "map_of ts h = Some d"
  shows "Suc (length (filter (\<lambda>(k, due). k \<noteq> h) ts)) = length ts"
  using assms
proof (induction ts)
  case Nil
  then show ?case by simp
next
  case (Cons x ts)
  obtain k e where x: "x = (k, e)" by (cases x)
  show ?case
  proof (cases "k = h")
    case True
    then have "h \<notin> fst ` set ts" using Cons.prems(1) x by auto
    then have "filter (\<lambda>(k, due). k \<noteq> h) ts = ts"
      by (induction ts) auto
    then show ?thesis using True x by simp
  next
    case False
    then show ?thesis using Cons x by simp
  qed
qed

lemma timerFires_cases:
  "timerFires product h now st = (st, []) \<or>
   (\<exists>due. map_of (timers st) h = Some due \<and> due \<le> now \<and>
      timerFires product h now st =
        ((clearTimeout h st)\<lparr>tapTimeoutRef := None\<rparr>, [OnSingleTap (product_id product)]))"
  by (auto simp: timerFires_def singleTapTimeout_def split: option.splits)

lemma spaced_run:
  assumes "timers_wf st" and "spaced (lastTapRef st) (tapTimes evs)"
    and "reelEvents product evs st = (st', effs)"
  shows "timers_wf st' \<and> filter isToggleFavoriteCall effs = [] \<and>
     length (filter isOnSingleTap effs) + length (timers st') =
       length (tapTimes evs) + length (timers st) \<and>
     (\<forall>(h, due) \<in> set (timers st').
        (h, due) \<in> set (timers st) \<or> due - DOUBLE_TAP_DELAY \<in> set (tapTimes evs)) \<and>
     providerFavorites st' = providerFavorites st"
  using assms
proof (induction evs arbitrary: st st' effs)
  case Nil
  then show ?case by auto
next
  case (Cons ev evs)
  obtain s1 out where step: "reelEvent product ev st = (s1, out)"
    by (cases "reelEvent product ev st")
  obtain s2 outs where rest: "reelEvents product evs s1 = (s2, outs)"
    by (cases "reelEvents product evs s1")
  have res: "st' = s2" "effs = out @ outs"
    using Cons.prems(3) step rest by simp_all
  show ?case
  proof (cases ev)
    case (Tap now)
    have sp: "DOUBLE_TAP_DELAY \<le> now - lastTapRef st" "spaced now (tapTimes evs)"
      using Cons.prems(2) Tap by simp_all
    have s1: "s1 = st\<lparr>lastTapRef := now, tapTimeoutRef := Some (nextTimer st),
         timers := timers st @ [(nextTimer st, now + DOUBLE_TAP_DELAY)],
         nextTimer := Suc (nextTimer st)\<rparr>" and out: "out = []"
      using step Tap handleTap_single [OF sp(1), of product] by simp_all
    have wf1: "timers_wf s1"
      unfolding s1 using Cons.prems(1) by (rule timers_wf_handleTap_single)
    have sp1: "spaced (lastTapRef s1) (tapTimes evs)"
      using sp(2) by (simp add: s1)
    note ih = Cons.IH [OF wf1 sp1 rest]
    show ?thesis
      using ih unfolding res out by (auto simp: s1 Tap)
  next
    case (TimerFires h now)
    have sp1: "spaced (lastTapRef st) (tapTimes evs)"
      using Cons.prems(2) TimerFires by simp
    from timerFires_cases [of product h now st]
    show ?thesis
    proof
      assume "timerFires product h now st = (st, [])"
      then have s1: "s1 = st" "out = []"
        using step TimerFires by simp_all
      note ih = Cons.IH [OF Cons.prems(1) sp1 rest [unfolded s1]]
      show ?thesis
        using ih unfolding res s1 by (auto simp: TimerFires)
    next
      assume "\<exists>due. map_of (timers st) h = Some due \<and> due \<le> now \<and>
        timerFires product h now st =
          ((clearTimeout h st)\<lparr>tapTimeoutRef := None\<rparr>, [OnSingleTap (product_id product)])"
      then obtain due where due: "map_of (timers st) h = Some due"
        and s1: "s1 = (clearTimeout h st)\<lparr>tapTimeoutRef := None\<rparr>"
          "out = [OnSingleTap (product_id product)]"
        using step TimerFires by auto
      have wf1: "timers_wf s1"
        using timers_wf_clearTimeout [OF Cons.prems(1), of h]
        by (simp add: s1 timers_wf_def)
      have sp1': "spaced (lastTapRef s1) (tapTimes evs)"
        using sp1 by (simp add: s1 clearTimeout_def)
      have len: "Suc (length (timers s1)) = length (timers st)"
        using length_clearTimeout [OF _ due] Cons.prems(1)
        by (simp add: s1 clearTimeout_def timers_wf_def)
      have sub: "set (timers s1) \<subseteq> set (timers st)"
        by (auto simp: s1 clearTimeout_def)
      have fav: "providerFavorites s1 = providerFavorites st"
        by (simp add: s1 clearTimeout_def)
      note ih = Cons.IH [OF wf1 sp1' rest]
      show ?thesis
        using ih len sub fav unfolding res s1(2)
        by (auto simp: TimerFires isToggleFavoriteCall_def isOnSingleTap_def)
    qed
  qed
qed

lemma single_tap_timer_fires_once:
  assumes "timers_wf st" and "DOUBLE_TAP_DELAY \<le> t - lastTapRef st"
  shows "(\<forall>now < t + DOUBLE_TAP_DELAY.
            timerFires product (nextTimer st) now (fst (handleTap product t st)) =
              (fst (handleTap product t st), [])) \<and>
         (\<forall>now \<ge> t + DOUBLE_TAP_DELAY. \<forall>later.
            snd (timerFires product (nextTimer st) now (fst (handleTap product t st))) =
              [OnSingleTap (product_id product)] \<and>
            snd (timerFires product (nextTimer st) later
                  (fst (timerFires product (nextTimer st) now (fst (handleTap product t st))))) = [])"
proof -
  let ?h = "nextTimer st"
  have fresh: "list_all (\<lambda>(h, due). h < ?h) (timers st)"
    using assms(1) by (simp add: timers_wf_def)
  have none: "map_of (timers st) ?h = None"
    using fresh by (rule map_of_fresh_handle)
  have keep: "filter (\<lambda>(k, due). k \<noteq> ?h) (timers st) = timers st"
    using fresh by (rule filter_fresh_handle)
  show ?thesis
    by (simp add: handleTap_single [OF assms(2)] timerFires_def singleTapTimeout_def
        clearTimeout_def keep none map_add_def)
qed

text \<open>
  Claim C5. Take any sequence of taps and timeout callbacks on an item whose pending
  timeouts are well formed, each tap at least 300 ms after the tap before it (the first
  after the recorded last-tap time, which is 0 on a fresh item and after a double tap; a
  clock reading of \<^verbatim>\<open>Date.now()\<close> is far above 300). Then toggleFavorite is never called; every tap
  schedules one timeout, due exactly 300 ms after it, and none is ever cancelled: the
  single-tap callbacks fired so far and the timeouts still pending add up to the taps and
  the timeouts pending at the start. A tap exactly 300 ms after the previous one takes the
  single-tap branch as well, since the comparison is a strict less-than. The timeout of
  such a tap does not run before it is due; when it runs it calls onSingleTap once, and it
  cannot run again.
\<close>

theorem spaced_taps_are_single_taps:
  assumes "timers_wf st" and "spaced (lastTapRef st) (tapTimes evs)"
  shows "filter isToggleFavoriteCall (snd (reelEvents product evs st)) = [] \<and>
     length (filter isOnSingleTap (snd (reelEvents product evs st)))
         + length (timers (fst (reelEvents product evs st))) =
       length (tapTimes evs) + length (timers st) \<and>
     (\<forall>(h, due) \<in> set (timers (fst (reelEvents product evs st))).
        (h, due) \<in> set (timers st) \<or> due - DOUBLE_TAP_DELAY \<in> set (tapTimes evs)) \<and>
     (DOUBLE_TAP_DELAY \<le> t - lastTapRef st \<longrightarrow>
        reelEvents product [Tap t, Tap (t + DOUBLE_TAP_DELAY)] st =
          (st\<lparr>lastTapRef := t + DOUBLE_TAP_DELAY, tapTimeoutRef := Some (Suc (nextTimer st)),
              timers := timers st @ [(nextTimer st, t + DOUBLE_TAP_DELAY),
                 (Suc (nextTimer st), t + DOUBLE_TAP_DELAY + DOUBLE_TAP_DELAY)],
              nextTimer := Suc (Suc (nextTimer st))\<rparr>, []) \<and>
        (\<forall>now < t + DOUBLE_TAP_DELAY.
            timerFires product (nextTimer st) now (fst (handleTap product t st)) =
              (fst (handleTap product t st), [])) \<and>
        (\<forall>now \<ge> t + DOUBLE_TAP_DELAY. \<forall>later.
            snd (timerFires product (nextTimer st) now (fst (handleTap product t st))) =
              [OnSingleTap (product_id product)] \<and>
            snd (timerFires product (nextTimer st) later
                  (fst (timerFires product (nextTimer st) now (fst (handleTap product t st))))) = []))"
proof -
  obtain st' effs where run: "reelEvents product evs st = (st', effs)"
    by (cases "reelEvents product evs st")
  note r = spaced_run [OF assms run]
  have a: "filter isToggleFavoriteCall (snd (reelEvents product evs st)) = []"
    using r by (simp add: run)
  have b: "length (filter isOnSingleTap (snd (reelEvents product evs st)))
         + length (timers (fst (reelEvents product evs st))) =
       length (tapTimes evs) + length (timers st)"
    using r by (simp add: run)
  have c: "\<forall>(h, due) \<in> set (timers (fst (reelEvents product evs st))).
        (h, due) \<in> set (timers st) \<or> due - DOUBLE_TAP_DELAY \<in> set (tapTimes evs)"
    using r by (simp add: run)
  have d: "reelEvents product [Tap t, Tap (t + DOUBLE_TAP_DELAY)] st =
          (st\<lparr>lastTapRef := t + DOUBLE_TAP_DELAY, tapTimeoutRef := Some (Suc (nextTimer st)),
              timers := timers st @ [(nextTimer st, t + DOUBLE_TAP_DELAY),
                 (Suc (nextTimer st), t + DOUBLE_TAP_DELAY + DOUBLE_TAP_DELAY)],
              nextTimer := Suc (Suc (nextTimer st))\<rparr>, [])"
    if "DOUBLE_TAP_DELAY \<le> t - lastTapRef st"
    using that by (simp add: handleTap_single)
  show ?thesis
    using a b c d single_tap_timer_fires_once [OF assms(1), of t product] by blast
qed

theorem spaced_taps_are_single_taps_witness:
  "timers_wf (reelMount []) \<and>
   spaced (lastTapRef (reelMount []))
     (tapTimes [Tap 1000, TimerFires 1 1300, Tap 1300, TimerFires 2 1600]) \<and>
   filter isToggleFavoriteCall (snd (reelEvents lamp
     [Tap 1000, TimerFires 1 1300, Tap 1300, TimerFires 2 1600] (reelMount []))) = [] \<and>
   length (filter isOnSingleTap (snd (reelEvents lamp
     [Tap 1000, TimerFires 1 1300, Tap 1300, TimerFires 2 1600] (reelMount [])))) = 2 \<and>
   DOUBLE_TAP_DELAY \<le> 1000 - lastTapRef (reelMount []) \<and>
   reelEvents lamp [Tap 1000, Tap (1000 + DOUBLE_TAP_DELAY)] (reelMount []) =
     (\<lparr>lastTapRef = 1300, tapTimeoutRef = Some 2, timers = [(1, 1300), (2, 1600)],
       nextTimer = 3, providerFavorites = []\<rparr>, [])"
proof -
  let ?evs = "[Tap 1000, TimerFires 1 1300, Tap 1300, TimerFires 2 1600]"
  have sp: "spaced (lastTapRef (reelMount [])) (tapTimes ?evs)"
    by (simp add: reelMount_def DOUBLE_TAP_DELAY_def)
  have d: "DOUBLE_TAP_DELAY \<le> 1000 - lastTapRef (reelMount [])"
    by (simp add: reelMount_def DOUBLE_TAP_DELAY_def)
  note th = spaced_taps_are_single_taps [OF timers_wf_reelMount sp, of lamp 1000]
  have none: "timers (fst (reelEvents lamp ?evs (reelMount []))) = []"
    by (simp add: reel_eval)
  have a: "filter isToggleFavoriteCall (snd (reelEvents lamp ?evs (reelMount []))) = []"
    using th by blast
  have "length (filter isOnSingleTap (snd (reelEvents lamp ?evs (reelMount []))))
         + length (timers (fst (reelEvents lamp ?evs (reelMount [])))) =
       length (tapTimes ?evs) + length (timers (reelMount []))"
    using th by blast
  then have b: "length (filter isOnSingleTap (snd (reelEvents lamp ?evs (reelMount [])))) = 2"
    unfolding none by (simp add: reelMount_def)
  have "reelEvents lamp [Tap 1000, Tap (1000 + DOUBLE_TAP_DELAY)] (reelMount []) =
      ((reelMount [])\<lparr>lastTapRef := 1000 + DOUBLE_TAP_DELAY,
          tapTimeoutRef := Some (Suc (nextTimer (reelMount []))),
          timers := timers (reelMount []) @ [(nextTimer (reelMount []), 1000 + DOUBLE_TAP_DELAY),
             (Suc (nextTimer (reelMount [])), 1000 + DOUBLE_TAP_DELAY + DOUBLE_TAP_DELAY)],
          nextTimer := Suc (Suc (nextTimer (reelMount [])))\<rparr>, [])"
    using th d by blast
  also have "\<dots> = (\<lparr>lastTapRef = 1300, tapTimeoutRef = Some 2,
       timers = [(1, 1300), (2, 1600)], nextTimer = 3, providerFavorites = []\<rparr>, [])"
    by (simp add: reelMount_def DOUBLE_TAP_DELAY_def)
  finally have c: "reelEvents lamp [Tap 1000, Tap (1000 + DOUBLE_TAP_DELAY)] (reelMount []) =
     (\<lparr>lastTapRef = 1300, tapTimeoutRef = Some 2, timers = [(1, 1300), (2, 1600)],
       nextTimer = 3, providerFavorites = []\<rparr>, [])" .
  show ?thesis
    using timers_wf_reelMount [of "[]"] sp a b c d by (intro conjI)
qed

subsection \<open>Looped feed: decimal digits\<close>

lemma isDigit_digitChar: "d < 10 \<Longrightarrow> isDigit (digitChar d)"
  by (simp add: isDigit_def digitChar_def del: set_simps)


lemma numberToString_digits: "list_all isDigit (numberToString n)"
proof (induction n rule: numberToString.induct)
  case (1 n)
  show ?case
  proof (cases "n < 10")
    case True
    then show ?thesis
      by (simp add: numberToString.simps [of n] isDigit_digitChar)
  next
    case False
    then show ?thesis
      using 1 by (simp add: numberToString.simps [of n] isDigit_digitChar)
  qed
qed

lemma numberToString_not_Nil: "numberToString n \<noteq> []"
  by (simp add: numberToString.simps [of n])


lemma isDigit_not_underscore: "isDigit c \<Longrightarrow> c \<noteq> CHR ''_''"
  by (auto simp: isDigit_def)

lemma isDigit_not_lineTerminator: "isDigit c \<Longrightarrow> \<not> isLineTerminator c"
  by (auto simp: isDigit_def isLineTerminator_def)

subsection \<open>Looped feed: the match of the loop suffix\<close>

lemma underscores_append [simp]: "underscores (xs @ ys) = underscores xs + underscores ys"
  by (simp add: underscores_def)

lemma underscores_Nil [simp]: "underscores [] = 0"
  by (simp add: underscores_def)

lemma underscores_Cons [simp]:
  "underscores (c # cs) = (if c = CHR ''_'' then 1 else 0) + underscores cs"
  by (simp add: underscores_def)

lemma underscores_digits: "list_all isDigit ds \<Longrightarrow> underscores ds = 0"
  by (induction ds) (auto simp: isDigit_not_underscore)

lemma matchesTail_D:
  assumes "matchesTail r"
  obtains d1 d2 where "r = ''_loop'' @ d1 @ ''_'' @ d2" "d1 \<noteq> []" "d2 \<noteq> []"
    "list_all isDigit d1" "list_all isDigit d2"
proof -
  let ?r1 = "drop 5 r"
  let ?d1 = "takeWhile isDigit ?r1"
  from assms have p: "take 5 r = ''_loop''" and d1: "?d1 \<noteq> []"
    by (simp_all add: matchesTail_def Let_def)
  from assms obtain r3 where r2: "dropWhile isDigit ?r1 = CHR ''_'' # r3"
    and r3: "r3 \<noteq> []" "list_all isDigit r3"
    by (auto simp: matchesTail_def Let_def split: list.splits)
  have "r = take 5 r @ ?r1" by simp
  also have "?r1 = ?d1 @ dropWhile isDigit ?r1" by simp
  finally have "r = ''_loop'' @ ?d1 @ ''_'' @ r3"
    using p r2 by simp
  moreover have "list_all isDigit ?d1"
    by (simp add: list_all_iff) (meson set_takeWhileD)
  ultimately show thesis
    using that d1 r3 by blast
qed

lemma matchesTail_I:
  assumes "d1 \<noteq> []" "d2 \<noteq> []" "list_all isDigit d1" "list_all isDigit d2"
  shows "matchesTail (''_loop'' @ d1 @ ''_'' @ d2)"
proof -
  have nd: "\<not> isDigit CHR ''_''" by (simp add: isDigit_def)
  have a: "takeWhile isDigit (d1 @ CHR ''_'' # d2) = d1"
    using assms(3) nd by (simp add: takeWhile_tail list_all_iff)
  have b: "dropWhile isDigit (d1 @ CHR ''_'' # d2) = CHR ''_'' # d2"
    using assms(3) nd by (simp add: dropWhile_append3 list_all_iff)
  show ?thesis
    using assms a b by (simp add: matchesTail_def Let_def)
qed

lemma matchesTail_shape:
  assumes "matchesTail r"
  shows "underscores r = 2 \<and> r \<noteq> [] \<and> hd r = CHR ''_''"
proof -
  from assms obtain d1 d2 where r: "r = ''_loop'' @ d1 @ ''_'' @ d2"
    and d: "list_all isDigit d1" "list_all isDigit d2"
    by (rule matchesTail_D)
  show ?thesis
    unfolding r using d by (simp add: underscores_digits)
qed

lemma underscores_hd: "xs \<noteq> [] \<Longrightarrow> hd xs = CHR ''_'' \<Longrightarrow> 0 < underscores xs"
  by (cases xs) simp_all

text \<open>Two suffixes of one string that both match are the same suffix.\<close>

lemma matchesTail_unique:
  assumes "matchesTail (drop k s)" and "matchesTail (drop j s)" and "k \<le> length s" and "j \<le> length s"
  shows "k = j"
proof -
  have aux: False if kj: "k < j" and mk: "matchesTail (drop k s)" and mj: "matchesTail (drop j s)"
    and j: "j \<le> length s" for k j
  proof -
    let ?x = "take (j - k) (drop k s)"
    have "drop k s = ?x @ drop (j - k) (drop k s)"
      by (simp only: append_take_drop_id)
    also have "drop (j - k) (drop k s) = drop j s"
      using kj by simp
    finally have split: "drop k s = ?x @ drop j s" .
    have xne: "?x \<noteq> []" using kj j by simp
    have "hd (drop k s) = CHR ''_''" using matchesTail_shape [OF mk] by simp
    then have "hd ?x = CHR ''_''" using xne split by (metis hd_append2)
    then have "0 < underscores ?x" using xne by (rule underscores_hd [rotated])
    moreover have "underscores (drop k s) = underscores ?x + underscores (drop j s)"
      by (subst split) simp
    ultimately show False
      using matchesTail_shape [OF mk] matchesTail_shape [OF mj] by simp
  qed
  show ?thesis
    using aux [of k j] aux [of j k] assms by (meson linorder_neqE_nat)
qed

lemma find_unique:
  assumes "x \<in> set xs" and "P x" and "\<forall>y \<in> set xs. P y \<longrightarrow> y = x"
  shows "find P xs = Some x"
  using assms
proof (induction xs)
  case Nil
  then show ?case by simp
next
  case (Cons a xs)
  show ?case
  proof (cases "P a")
    case True
    have "a = x"
      using Cons.prems(3) True by (meson list.set_intros(1))
    with True show ?thesis
      by (simp only: find.simps if_True)
  next
    case False
    have m: "x \<in> set xs"
      using Cons.prems(1,2) False by (metis set_ConsD)
    have u: "\<forall>y \<in> set xs. P y \<longrightarrow> y = x"
      using Cons.prems(3) by (meson list.set_intros(2))
    have "find P xs = Some x"
      using m Cons.prems(2) u by (rule Cons.IH)
    with False show ?thesis
      by (simp only: find.simps if_False)
  qed
qed

lemma getOriginalProductId_loopId:
  assumes "strippable b"
  shows "getOriginalProductId (loopId b i idx) = b"
proof -
  define t where "t = ''_loop'' @ numberToString i @ ''_'' @ numberToString idx"
  define s where "s = b @ t"
  have s: "loopId b i idx = s"
    by (simp add: loopId_def s_def t_def)
  have mt0: "matchesTail t"
    unfolding t_def
    by (rule matchesTail_I) (simp_all add: numberToString_not_Nil numberToString_digits)
  have dig: "list_all (\<lambda>c. \<not> isLineTerminator c) (numberToString k)" for k
    using numberToString_digits [of k]
    by (simp add: list_all_iff isDigit_not_lineTerminator)
  have lit: "list_all (\<lambda>c. \<not> isLineTerminator c) ''_loop''"
      "list_all (\<lambda>c. \<not> isLineTerminator c) ''_''"
    by (simp_all add: isLineTerminator_def)
  have "list_all (\<lambda>c. \<not> isLineTerminator c) b"
    using assms by (simp add: strippable_def)
  with dig lit have nolt: "list_all (\<lambda>c. \<not> isLineTerminator c) s"
    unfolding s_def t_def by (simp only: list_all_append simp_thms)
  then have "\<forall>c \<in> set s. \<not> isLineTerminator c"
    by (simp only: list_all_iff)
  then have "takeWhile (\<lambda>c. \<not> isLineTerminator c) s = s"
    by (simp only: takeWhile_eq_all_conv)
  then have n: "length (takeWhile (\<lambda>c. \<not> isLineTerminator c) s) = length s"
    by (rule arg_cong)
  have mt: "matchesTail (drop (length b) s)"
    using mt0 by (simp add: s_def)
  have "b \<noteq> []"
    using assms by (simp add: strippable_def)
  then have bpos: "length b \<in> set (rev [1..<Suc (length s)])"
    by (simp add: s_def Suc_le_eq)
  have uniq: "\<forall>k \<in> set (rev [1..<Suc (length s)]). matchesTail (drop k s) \<longrightarrow> k = length b"
  proof (intro ballI impI)
    fix k assume k: "k \<in> set (rev [1..<Suc (length s)])" and m: "matchesTail (drop k s)"
    from k have "k \<le> length s" by auto
    moreover have "length b \<le> length s" by (simp add: s_def)
    ultimately show "k = length b"
      using m mt by (rule matchesTail_unique [rotated 2])
  qed
  have "find (\<lambda>k. matchesTail (drop k s)) (rev [1..<Suc (length s)]) = Some (length b)"
    using bpos mt uniq by (rule find_unique)
  then have "loopMatch s = Some (take (length b) s)"
    by (simp only: loopMatch_def n Let_def option.map)
  then have "loopMatch s = Some b"
    by (simp add: s_def)
  then show ?thesis
    by (simp add: getOriginalProductId_def s)
qed

subsection \<open>Looped feed: the loop as a list of rows\<close>

lemma forEachPush_eq:
  "forEachPush i k rest looped =
     looped @ map (\<lambda>(idx, product). product\<lparr>product_id := loopId (product_id product) i idx\<rparr>)
       (enumerate k rest)"
  by (induction rest arbitrary: k looped) simp_all

lemma loopFrom_eq:
  "loopFrom i m shuffled looped = looped @ concat (map (\<lambda>i. loopRow i shuffled) [i..<m])"
proof (induction i m shuffled looped rule: loopFrom.induct)
  case (1 i m shuffled looped)
  show ?case
  proof (cases "i < m")
    case True
    then show ?thesis
      using 1 by (simp add: loopFrom.simps [of i] forEachPush_eq loopRow_def upt_conv_Cons)
  next
    case False
    then show ?thesis
      by (simp add: loopFrom.simps [of i])
  qed
qed

lemma buildLooped_eq:
  "buildLooped m shuffled = concat (map (\<lambda>i. loopRow i shuffled) [0..<m])"
  by (simp add: buildLooped_def loopFrom_eq)

lemma length_loopRow [simp]: "length (loopRow i shuffled) = length shuffled"
  by (simp add: loopRow_def)

lemma length_buildLooped: "length (buildLooped m shuffled) = m * length shuffled"
  by (simp add: buildLooped_eq length_concat comp_def sum_list_triv)



lemma in_buildLoopedI:
  assumes "i < m" and "idx < length shuffled"
  shows "(shuffled ! idx)\<lparr>product_id := loopId (product_id (shuffled ! idx)) i idx\<rparr>
     \<in> set (buildLooped m shuffled)"
proof -
  have "(idx, shuffled ! idx) \<in> set (enumerate 0 shuffled)"
    using assms(2) by (simp add: in_set_enumerate_eq)
  then have "(shuffled ! idx)\<lparr>product_id := loopId (product_id (shuffled ! idx)) i idx\<rparr>
      \<in> set (loopRow i shuffled)"
    unfolding loopRow_def by force
  then show ?thesis
    using assms(1) by (auto simp: buildLooped_eq)
qed

subsection \<open>Synthesized identifiers are distinct\<close>







subsection \<open>Looped feed: length, distinct identifiers, recovery of the original id\<close>





text \<open>
  Claim C8, as stated, fails when the shuffle swaps the two products: the identifiers are
  then b_loop0_0, a_loop0_1, b_loop1_0 and a_loop1_1, since the index in the identifier is
  the position after the shuffle.
\<close>

theorem shuffled_pair_counterexample:
  "mset [productB, productA] = mset [productA, productB] \<and>
   map product_id (buildLooped 2 [productB, productA]) =
     [''b_loop0_0'', ''a_loop0_1'', ''b_loop1_0'', ''a_loop1_1''] \<and>
   set (map product_id (buildLooped 2 [productB, productA])) \<noteq>
     {''a_loop0_0'', ''b_loop0_1'', ''a_loop1_0'', ''b_loop1_1''}"
proof -
  have ids: "map product_id (buildLooped 2 [productB, productA]) =
     [''b_loop0_0'', ''a_loop0_1'', ''b_loop1_0'', ''a_loop1_1'']"
    by (simp add: buildLooped_def loopFrom.simps loopId_def numberToString.simps digitChar_def
        productA_def productB_def)
  have "''b_loop0_0'' \<notin> {''a_loop0_0'', ''b_loop0_1'', ''a_loop1_0'', ''b_loop1_1''}"
    by simp
  then have "set [''b_loop0_0'', ''a_loop0_1'', ''b_loop1_0'', ''a_loop1_1''] \<noteq>
     {''a_loop0_0'', ''b_loop0_1'', ''a_loop1_0'', ''b_loop1_1''}"
    by (metis list.set_intros(1))
  then show ?thesis
    using ids by (simp only: mset.simps add_mset_commute simp_thms)
qed

lemma pair_perm:
  assumes "mset xs = mset [a, b]"
  shows "xs = [a, b] \<or> xs = [b, a]"
proof -
  have "length xs = 2"
    using mset_eq_length [OF assms] by simp
  then obtain x y where xs: "xs = [x, y]"
    by (metis (no_types, opaque_lifting) Suc_length_conv length_0_conv numeral_2_eq_2)
  have "{#x, y#} = {#a, b#}"
    using assms by (simp add: xs)
  then show ?thesis
    unfolding xs by (auto simp: add_eq_conv_ex)
qed

text \<open>
  Claim C8, amended. For two input products with ids ''a'' and ''b'', in whichever order
  the shuffle leaves them, the feed looped with multiplier 2 has exactly 4 entries. Their
  identifiers are a_loop0_0, b_loop0_1, a_loop1_0, b_loop1_1 when the order is a, b, and
  b_loop0_0, a_loop0_1, b_loop1_0, a_loop1_1 when it is b, a. In both cases the ids
  recovered by stripping the loop suffix are exactly ''a'' and ''b''.
\<close>

theorem two_product_feed:
  assumes "product_id pa = ''a''" and "product_id pb = ''b''" and "mset shuffled = mset [pa, pb]"
  shows "length (buildLooped 2 shuffled) = 4 \<and>
     (shuffled = [pa, pb] \<or> shuffled = [pb, pa]) \<and>
     (shuffled = [pa, pb] \<longrightarrow>
        map product_id (buildLooped 2 shuffled) =
          [''a_loop0_0'', ''b_loop0_1'', ''a_loop1_0'', ''b_loop1_1'']) \<and>
     (shuffled = [pb, pa] \<longrightarrow>
        map product_id (buildLooped 2 shuffled) =
          [''b_loop0_0'', ''a_loop0_1'', ''b_loop1_0'', ''a_loop1_1'']) \<and>
     getOriginalProductId ` set (map product_id (buildLooped 2 shuffled)) = {''a'', ''b''}"
proof -
  have ids: "map product_id (buildLooped 2 [p, q]) =
      [loopId (product_id p) 0 0, loopId (product_id q) 0 1,
       loopId (product_id p) 1 0, loopId (product_id q) 1 1]" for p q
    by (simp add: buildLooped_def loopFrom.simps)
  have lit: "loopId ''a'' 0 0 = ''a_loop0_0''" "loopId ''b'' 0 1 = ''b_loop0_1''"
    "loopId ''a'' 1 0 = ''a_loop1_0''" "loopId ''b'' 1 1 = ''b_loop1_1''"
    "loopId ''b'' 0 0 = ''b_loop0_0''" "loopId ''a'' 0 1 = ''a_loop0_1''"
    "loopId ''b'' 1 0 = ''b_loop1_0''" "loopId ''a'' 1 1 = ''a_loop1_1''"
    by (simp_all add: loopId_def numberToString.simps digitChar_def)
  have st: "strippable ''a''" "strippable ''b''"
    by (simp_all add: strippable_def isLineTerminator_def)
  have rt: "getOriginalProductId (loopId ''a'' i idx) = ''a''"
    "getOriginalProductId (loopId ''b'' i idx) = ''b''" for i idx
    by (simp_all add: getOriginalProductId_loopId st)
  have cases: "shuffled = [pa, pb] \<or> shuffled = [pb, pa]"
    using assms(3) by (rule pair_perm)
  have len: "length (buildLooped 2 shuffled) = 4"
    using cases by (auto simp: length_buildLooped)
  have ab: "map product_id (buildLooped 2 [pa, pb]) =
      [''a_loop0_0'', ''b_loop0_1'', ''a_loop1_0'', ''b_loop1_1'']"
    by (simp only: ids assms lit)
  have ba: "map product_id (buildLooped 2 [pb, pa]) =
      [''b_loop0_0'', ''a_loop0_1'', ''b_loop1_0'', ''a_loop1_1'']"
    by (simp only: ids assms lit)
  have base: "getOriginalProductId ` set (map product_id (buildLooped 2 shuffled)) = {''a'', ''b''}"
    using cases
  proof
    assume "shuffled = [pa, pb]"
    then show ?thesis
      by (simp only: ids assms list.set image_insert image_empty rt) auto
  next
    assume "shuffled = [pb, pa]"
    then show ?thesis
      by (simp only: ids assms list.set image_insert image_empty rt) auto
  qed
  show ?thesis
    using len cases ab ba base by blast
qed

theorem two_product_feed_witness:
  "product_id productA = ''a'' \<and> product_id productB = ''b'' \<and>
   mset [productB, productA] = mset [productA, productB] \<and>
   length (buildLooped 2 [productB, productA]) = 4 \<and>
   map product_id (buildLooped 2 [productA, productB]) =
     [''a_loop0_0'', ''b_loop0_1'', ''a_loop1_0'', ''b_loop1_1''] \<and>
   map product_id (buildLooped 2 [productB, productA]) =
     [''b_loop0_0'', ''a_loop0_1'', ''b_loop1_0'', ''a_loop1_1''] \<and>
   getOriginalProductId ` set (map product_id (buildLooped 2 [productB, productA])) = {''a'', ''b''}"
proof -
  have a: "product_id productA = ''a''" and b: "product_id productB = ''b''"
    by (simp_all add: productA_def productB_def)
  have m: "mset [productB, productA] = mset [productA, productB]"
    by (simp only: mset.simps add_mset_commute)
  have m': "mset [productA, productB] = mset [productA, productB]"
    by simp
  note t1 = two_product_feed [OF a b m]
  note t2 = two_product_feed [OF a b m']
  have ne: "productA \<noteq> productB"
    by (simp add: productA_def productB_def)
  show ?thesis
    using a b m t1 [THEN conjunct1]
      t2 [THEN conjunct2, THEN conjunct2, THEN conjunct1, rule_format, OF refl]
      t1 [THEN conjunct2, THEN conjunct2, THEN conjunct2, THEN conjunct1, rule_format, OF refl]
      t1 [THEN conjunct2, THEN conjunct2, THEN conjunct2, THEN conjunct2]
    by (intro conjI)
qed

end
